theory Spec2Isabelle
  imports Main
begin

section \<open>Result and error model (models.hpp)\<close>

text \<open>
  Vertex and edge ids are \<open>std::size_t\<close> hash values. The container only stores and
  compares them; it never does arithmetic on them, so they are modelled as natural numbers.
\<close>

type_synonym size_t = nat

datatype ErrorType =
    INVALID_ARGUMENT
  | ABSENT_VERTX
  | ABSENT_EDGE
  | EDGE_ALREADY_EXISTS
  | VERTEX_NOT_FREE
  | INVALID_OPERATION
  | OUT_OF_RANGE
  | UNKNOWN

text \<open>
  \<open>std::variant<std::monostate, SUCCESS, ERROR>\<close>: three alternatives. The class keeps
  the variant and a separate flag \<open>is_success\<close>; the accessors branch on the flag and then
  call \<open>std::get\<close> on the variant.
\<close>

datatype ('s, 'e) variant = Monostate | Holds_success 's | Holds_error 'e

record ('s, 'e) Result =
  result :: "('s, 'e) variant"
  is_success :: bool

text \<open>
  The C++ exceptions that the modelled code can raise: the \<open>std::runtime_error\<close> thrown
  by the accessors (with its message), \<open>std::bad_variant_access\<close> thrown by \<open>std::get\<close>
  on the wrong alternative, and \<open>std::out_of_range\<close> thrown by \<open>unordered_map::at\<close>.
\<close>

datatype exn = Runtime_error string | Bad_variant_access | Out_of_range

datatype 'a outcome = Returns 'a | Throws exn

definition success :: "'s \<Rightarrow> ('s, 'e) Result" where
  "success s = \<lparr>result = Holds_success s, is_success = True\<rparr>"

definition error :: "'e \<Rightarrow> ('s, 'e) Result" where
  "error e = \<lparr>result = Holds_error e, is_success = False\<rparr>"

definition is_ok :: "('s, 'e) Result \<Rightarrow> bool" where
  "is_ok r = is_success r"

text \<open>\<open>std::get<SUCCESS>\<close> and \<open>std::get<ERROR>\<close> on the variant.\<close>

definition std_get_success :: "('s, 'e) variant \<Rightarrow> 's outcome" where
  "std_get_success v = (case v of Holds_success s \<Rightarrow> Returns s | _ \<Rightarrow> Throws Bad_variant_access)"

definition std_get_error :: "('s, 'e) variant \<Rightarrow> 'e outcome" where
  "std_get_error v = (case v of Holds_error e \<Rightarrow> Returns e | _ \<Rightarrow> Throws Bad_variant_access)"

subsection \<open>Accessors of headers/cgrapht/models.hpp\<close>

definition get_ok :: "('s, 'e) Result \<Rightarrow> 's outcome" where
  "get_ok r =
     (if is_success r then std_get_success (result r)
      else Throws (Runtime_error ''Cannot get ok value from error result''))"

definition consume_ok :: "('s, 'e) Result \<Rightarrow> 's outcome" where
  "consume_ok r =
     (if is_success r then std_get_success (result r)
      else Throws (Runtime_error ''Cannot consume ok value from error result''))"

definition get_error :: "('s, 'e) Result \<Rightarrow> 'e outcome" where
  "get_error r =
     (if \<not> is_success r then std_get_error (result r)
      else Throws (Runtime_error ''Cannot get error value from success result''))"

definition consume_error :: "('s, 'e) Result \<Rightarrow> 'e outcome" where
  "consume_error r =
     (if \<not> is_success r then std_get_error (result r)
      else Throws (Runtime_error ''Cannot consume error value from success result''))"

subsection \<open>Consumers of headers/models.hpp\<close>

text \<open>
  The second copy of the class, in headers/models.hpp, has the same constructors and the
  same \<open>get_ok\<close>/\<open>get_error\<close>; its extra field \<open>is_initialized\<close> is never read or written.
  Its two consumers test the flag the other way round.
\<close>

definition consume_ok_legacy :: "('s, 'e) Result \<Rightarrow> 's outcome" where
  "consume_ok_legacy r =
     (if \<not> is_success r then std_get_success (result r)
      else Throws (Runtime_error ''Cannot consume ok value from error result''))"

definition consume_error_legacy :: "('s, 'e) Result \<Rightarrow> 'e outcome" where
  "consume_error_legacy r =
     (if is_success r then std_get_error (result r)
      else Throws (Runtime_error ''Cannot consume error value from success result''))"

section \<open>The directed graph (graph.hpp)\<close>

record 'e Edge =
  from_id :: size_t
  to_id :: size_t
  edge :: 'e

record EdgeSet =
  incoming_edges :: "size_t set"
  outgoing_edges :: "size_t set"

record ('v, 'e) DirectedGraph =
  vertex_index :: "size_t \<rightharpoonup> 'v"
  edge_index :: "size_t \<rightharpoonup> 'e Edge"
  adjacency_list :: "size_t \<rightharpoonup> EdgeSet"

text \<open>A default-constructed graph: three empty tables.\<close>

definition empty_graph :: "('v, 'e) DirectedGraph" where
  "empty_graph = \<lparr>vertex_index = Map.empty, edge_index = Map.empty, adjacency_list = Map.empty\<rparr>"

subsection \<open>The operations of \<open>std::unordered_map\<close> that the graph uses\<close>

definition contains :: "('k \<rightharpoonup> 'a) \<Rightarrow> 'k \<Rightarrow> bool" where
  "contains m k = (m k \<noteq> None)"

text \<open>\<open>emplace\<close> inserts only when the key is absent.\<close>

definition emplace :: "('k \<rightharpoonup> 'a) \<Rightarrow> 'k \<Rightarrow> 'a \<Rightarrow> ('k \<rightharpoonup> 'a)" where
  "emplace m k v = (if contains m k then m else m(k \<mapsto> v))"

definition erase :: "('k \<rightharpoonup> 'a) \<Rightarrow> 'k \<Rightarrow> ('k \<rightharpoonup> 'a)" where
  "erase m k = m(k := None)"

text \<open>\<open>EdgeSet{}\<close>: both sets empty.\<close>

definition EdgeSet_default :: EdgeSet where
  "EdgeSet_default = \<lparr>incoming_edges = {}, outgoing_edges = {}\<rparr>"

text \<open>
  \<open>adjacency_list[k].field.insert(x)\<close> and \<open>adjacency_list[k].field.erase(x)\<close>:
  \<open>operator[]\<close> default-constructs the entry when the key is absent, then the entry is
  updated in place.
\<close>

definition subscript_update :: "(size_t \<rightharpoonup> EdgeSet) \<Rightarrow> size_t \<Rightarrow> (EdgeSet \<Rightarrow> EdgeSet) \<Rightarrow> (size_t \<rightharpoonup> EdgeSet)" where
  "subscript_update m k f =
     (case m k of None \<Rightarrow> m(k \<mapsto> f EdgeSet_default) | Some es \<Rightarrow> m(k \<mapsto> f es))"

text \<open>
  A \<open>std::views::transform\<close> over a set of edge ids whose function reads
  \<open>edge_index.at(edge_id)\<close>, collected into an \<open>unordered_set\<close>: \<open>at\<close> throws
  \<open>std::out_of_range\<close> on the first id missing from the edge table.
\<close>

definition transform_at :: "('e Edge \<Rightarrow> size_t) \<Rightarrow> (size_t \<rightharpoonup> 'e Edge) \<Rightarrow> size_t set \<Rightarrow> (size_t set) outcome" where
  "transform_at f idx ids =
     (if \<forall>edge_id\<in>ids. contains idx edge_id
      then Returns ((\<lambda>edge_id. f (the (idx edge_id))) ` ids)
      else Throws Out_of_range)"

subsection \<open>Mutators (identical in headers/cgrapht/graph.hpp and headers/graph.hpp)\<close>

text \<open>
  Each mutator returns its \<open>Result\<close> together with the graph after the call. The hash
  functions \<open>std::hash<V>\<close> and \<open>std::hash<E>\<close> are parameters.
\<close>

definition add_vertex :: "('v \<Rightarrow> size_t) \<Rightarrow> 'v \<Rightarrow> ('v, 'e) DirectedGraph
    \<Rightarrow> (size_t, ErrorType) Result \<times> ('v, 'e) DirectedGraph" where
  "add_vertex hashV v g =
     (let vertex_id = hashV v in
      if \<not> contains (vertex_index g) vertex_id
      then (success vertex_id,
            g\<lparr>vertex_index := emplace (vertex_index g) vertex_id v,
              adjacency_list := emplace (adjacency_list g) vertex_id EdgeSet_default\<rparr>)
      else (success vertex_id, g))"

definition delete_vertex :: "size_t \<Rightarrow> ('v, 'e) DirectedGraph
    \<Rightarrow> (size_t, ErrorType) Result \<times> ('v, 'e) DirectedGraph" where
  "delete_vertex vertex_id g =
     (if \<not> contains (vertex_index g) vertex_id then (error ABSENT_VERTX, g)
      else
        (case adjacency_list g vertex_id of
           Some es \<Rightarrow>
             if incoming_edges es = {} \<and> outgoing_edges es = {}
             then (success vertex_id,
                   g\<lparr>adjacency_list := erase (adjacency_list g) vertex_id,
                     vertex_index := erase (vertex_index g) vertex_id\<rparr>)
             else (error VERTEX_NOT_FREE, g)
         | None \<Rightarrow> (error VERTEX_NOT_FREE, g)))"

definition add_edge :: "('e \<Rightarrow> size_t) \<Rightarrow> size_t \<Rightarrow> size_t \<Rightarrow> 'e \<Rightarrow> ('v, 'e) DirectedGraph
    \<Rightarrow> (size_t, ErrorType) Result \<times> ('v, 'e) DirectedGraph" where
  "add_edge hashE from_id' to_id' e g =
     (if \<not> contains (vertex_index g) from_id' \<or> \<not> contains (vertex_index g) to_id'
      then (error ABSENT_VERTX, g)
      else
        (let edge_id = hashE e in
         case edge_index g edge_id of
           Some edge_info \<Rightarrow>
             if from_id edge_info \<noteq> from_id' \<or> to_id edge_info \<noteq> to_id'
             then (error EDGE_ALREADY_EXISTS, g)
             else (success edge_id, g)
         | None \<Rightarrow>
             (let ei = emplace (edge_index g) edge_id \<lparr>from_id = from_id', to_id = to_id', edge = e\<rparr>;
                  al1 = subscript_update (adjacency_list g) from_id'
                          (\<lambda>es. es\<lparr>outgoing_edges := insert edge_id (outgoing_edges es)\<rparr>);
                  al2 = subscript_update al1 to_id'
                          (\<lambda>es. es\<lparr>incoming_edges := insert edge_id (incoming_edges es)\<rparr>)
              in (success edge_id, g\<lparr>edge_index := ei, adjacency_list := al2\<rparr>))))"

definition delete_edge :: "size_t \<Rightarrow> ('v, 'e) DirectedGraph
    \<Rightarrow> (size_t, ErrorType) Result \<times> ('v, 'e) DirectedGraph" where
  "delete_edge edge_id g =
     (case edge_index g edge_id of
        Some edge_info \<Rightarrow>
          (let from_id' = from_id edge_info;
               to_id' = to_id edge_info;
               ei = erase (edge_index g) edge_id;
               al1 = subscript_update (adjacency_list g) from_id'
                       (\<lambda>es. es\<lparr>outgoing_edges := outgoing_edges es - {edge_id}\<rparr>);
               al2 = subscript_update al1 to_id'
                       (\<lambda>es. es\<lparr>incoming_edges := incoming_edges es - {edge_id}\<rparr>)
           in (success edge_id, g\<lparr>edge_index := ei, adjacency_list := al2\<rparr>))
      | None \<Rightarrow> (error ABSENT_EDGE, g))"

subsection \<open>Queries of headers/cgrapht/graph.hpp\<close>

definition get_vertex :: "size_t \<Rightarrow> ('v, 'e) DirectedGraph \<Rightarrow> ('v, ErrorType) Result" where
  "get_vertex id' g =
     (case vertex_index g id' of Some v \<Rightarrow> success v | None \<Rightarrow> error ABSENT_VERTX)"

definition get_edge :: "size_t \<Rightarrow> ('v, 'e) DirectedGraph \<Rightarrow> ('e Edge, ErrorType) Result" where
  "get_edge id' g =
     (case edge_index g id' of Some r \<Rightarrow> success r | None \<Rightarrow> error ABSENT_EDGE)"

definition get_children :: "size_t \<Rightarrow> ('v, 'e) DirectedGraph
    \<Rightarrow> ((size_t set, ErrorType) Result) outcome" where
  "get_children vertex_id g =
     (case adjacency_list g vertex_id of
        None \<Rightarrow> Returns (error ABSENT_VERTX)
      | Some es \<Rightarrow>
          (case transform_at to_id (edge_index g) (outgoing_edges es) of
             Throws x \<Rightarrow> Throws x
           | Returns children_set \<Rightarrow> Returns (success children_set)))"

definition get_parents :: "size_t \<Rightarrow> ('v, 'e) DirectedGraph
    \<Rightarrow> ((size_t set, ErrorType) Result) outcome" where
  "get_parents vertex_id g =
     (case adjacency_list g vertex_id of
        None \<Rightarrow> Returns (error ABSENT_VERTX)
      | Some es \<Rightarrow>
          (case transform_at from_id (edge_index g) (incoming_edges es) of
             Throws x \<Rightarrow> Throws x
           | Returns parent_set \<Rightarrow> Returns (success parent_set)))"

definition get_neighbours :: "size_t \<Rightarrow> ('v, 'e) DirectedGraph
    \<Rightarrow> ((size_t set, ErrorType) Result) outcome" where
  "get_neighbours vertex_id g =
     (case adjacency_list g vertex_id of
        None \<Rightarrow> Returns (error ABSENT_VERTX)
      | Some es \<Rightarrow>
          (case transform_at to_id (edge_index g) (outgoing_edges es) of
             Throws x \<Rightarrow> Throws x
           | Returns children \<Rightarrow>
               (case transform_at from_id (edge_index g) (incoming_edges es) of
                  Throws x \<Rightarrow> Throws x
                | Returns parents \<Rightarrow> Returns (success (children \<union> parents)))))"

definition get_outgoing_edges :: "size_t \<Rightarrow> ('v, 'e) DirectedGraph
    \<Rightarrow> (size_t set, ErrorType) Result" where
  "get_outgoing_edges vertex_id g =
     (case adjacency_list g vertex_id of
        None \<Rightarrow> error ABSENT_VERTX
      | Some es \<Rightarrow> success (outgoing_edges es))"

definition get_incoming_edges :: "size_t \<Rightarrow> ('v, 'e) DirectedGraph
    \<Rightarrow> (size_t set, ErrorType) Result" where
  "get_incoming_edges vertex_id g =
     (case adjacency_list g vertex_id of
        None \<Rightarrow> error ABSENT_VERTX
      | Some es \<Rightarrow> success (incoming_edges es))"

subsection \<open>\<open>get_neighbours\<close> of headers/graph.hpp\<close>

text \<open>
  In the second copy of the header the range named \<open>children\<close> is built from
  \<open>incoming_edges\<close> and \<open>from_id\<close>, exactly like \<open>parents\<close>.
\<close>

definition get_neighbours_legacy :: "size_t \<Rightarrow> ('v, 'e) DirectedGraph
    \<Rightarrow> ((size_t set, ErrorType) Result) outcome" where
  "get_neighbours_legacy vertex_id g =
     (case adjacency_list g vertex_id of
        None \<Rightarrow> Returns (error ABSENT_VERTX)
      | Some es \<Rightarrow>
          (case transform_at from_id (edge_index g) (incoming_edges es) of
             Throws x \<Rightarrow> Throws x
           | Returns children \<Rightarrow>
               (case transform_at from_id (edge_index g) (incoming_edges es) of
                  Throws x \<Rightarrow> Throws x
                | Returns parents \<Rightarrow> Returns (success (children \<union> parents)))))"

subsection \<open>Sequences of mutating calls\<close>

datatype ('v, 'e) call =
    Add_vertex 'v
  | Delete_vertex size_t
  | Add_edge size_t size_t 'e
  | Delete_edge size_t

fun apply_call :: "('v \<Rightarrow> size_t) \<Rightarrow> ('e \<Rightarrow> size_t) \<Rightarrow> ('v, 'e) call
    \<Rightarrow> ('v, 'e) DirectedGraph \<Rightarrow> ('v, 'e) DirectedGraph" where
  "apply_call hashV hashE (Add_vertex v) g = snd (add_vertex hashV v g)"
| "apply_call hashV hashE (Delete_vertex i) g = snd (delete_vertex i g)"
| "apply_call hashV hashE (Add_edge a b e) g = snd (add_edge hashE a b e g)"
| "apply_call hashV hashE (Delete_edge i) g = snd (delete_edge i g)"

fun run :: "('v \<Rightarrow> size_t) \<Rightarrow> ('e \<Rightarrow> size_t) \<Rightarrow> ('v, 'e) call list
    \<Rightarrow> ('v, 'e) DirectedGraph \<Rightarrow> ('v, 'e) DirectedGraph" where
  "run hashV hashE [] g = g"
| "run hashV hashE (c # cs) g = run hashV hashE cs (apply_call hashV hashE c g)"

text \<open>
  The structural invariant that the mutators maintain: the adjacency index has an entry
  exactly for the stored vertices; every stored edge is listed at both of its endpoints;
  and every id listed in an adjacency set is a stored edge with that endpoint.
\<close>

definition consistent :: "('v, 'e) DirectedGraph \<Rightarrow> bool" where
  "consistent g \<longleftrightarrow>
     (\<forall>k. contains (adjacency_list g) k = contains (vertex_index g) k) \<and>
     (\<forall>i r. edge_index g i = Some r \<longrightarrow>
        (\<exists>es. adjacency_list g (from_id r) = Some es \<and> i \<in> outgoing_edges es) \<and>
        (\<exists>es. adjacency_list g (to_id r) = Some es \<and> i \<in> incoming_edges es)) \<and>
     (\<forall>k es i. adjacency_list g k = Some es \<and> i \<in> outgoing_edges es \<longrightarrow>
        (\<exists>r. edge_index g i = Some r \<and> from_id r = k)) \<and>
     (\<forall>k es i. adjacency_list g k = Some es \<and> i \<in> incoming_edges es \<longrightarrow>
        (\<exists>r. edge_index g i = Some r \<and> to_id r = k))"

subsection \<open>Concrete inputs\<close>

text \<open>
  The end-to-end scenario of the tests: payloads are numbers hashed by the identity
  (the tests' \<open>std::hash<Vertex>\<close> returns \<open>v.id\<close>, \<open>std::hash<DefaultEdge>\<close> returns
  \<open>edge.id\<close>); vertices 1 to 5 and the edges 2\<rightarrow>1 (21), 3\<rightarrow>1 (31), 4\<rightarrow>2 (42), 5\<rightarrow>2 (52).
\<close>

definition id_hash :: "nat \<Rightarrow> size_t" where
  "id_hash x = x"

definition scenario_calls :: "(nat, nat) call list" where
  "scenario_calls =
     [Add_vertex 1, Add_vertex 2, Add_vertex 3, Add_vertex 4, Add_vertex 5,
      Add_edge 2 1 21, Add_edge 3 1 31, Add_edge 4 2 42, Add_edge 5 2 52]"

definition scenario_graph :: "(nat, nat) DirectedGraph" where
  "scenario_graph = run id_hash id_hash scenario_calls empty_graph"

text \<open>
  A hash function with collisions, as any \<open>std::hash\<close> specialisation on a type with more
  values than \<open>std::size_t\<close> has: payloads 5 and 15 get the same id.
\<close>

definition colliding_hash :: "nat \<Rightarrow> size_t" where
  "colliding_hash x = x mod 10"

text \<open>The scenario with one more vertex, 6, and a self-loop 66 on it.\<close>

definition self_loop_graph :: "(nat, nat) DirectedGraph" where
  "self_loop_graph = snd (add_edge id_hash 6 6 66 (snd (add_vertex id_hash 6 scenario_graph)))"

definition collision_calls :: "(nat, nat) call list" where
  "collision_calls = [Add_vertex 1, Add_vertex 2, Add_vertex 3, Add_edge 1 2 5]"

definition collision_graph :: "(nat, nat) DirectedGraph" where
  "collision_graph = run id_hash colliding_hash collision_calls empty_graph"

section \<open>The invariant holds in every reachable state\<close>

lemma consistent_empty: "consistent empty_graph"
  by (simp add: consistent_def empty_graph_def contains_def)

lemma consistent_dom:
  "consistent g \<Longrightarrow> contains (adjacency_list g) k = contains (vertex_index g) k"
  by (simp add: consistent_def)

lemma consistent_edge_out:
  "consistent g \<Longrightarrow> edge_index g i = Some r \<Longrightarrow>
     \<exists>es. adjacency_list g (from_id r) = Some es \<and> i \<in> outgoing_edges es"
  unfolding consistent_def by blast

lemma consistent_edge_in:
  "consistent g \<Longrightarrow> edge_index g i = Some r \<Longrightarrow>
     \<exists>es. adjacency_list g (to_id r) = Some es \<and> i \<in> incoming_edges es"
  unfolding consistent_def by blast

lemma consistent_out_edge:
  "consistent g \<Longrightarrow> adjacency_list g k = Some es \<Longrightarrow> i \<in> outgoing_edges es \<Longrightarrow>
     \<exists>r. edge_index g i = Some r \<and> from_id r = k"
  unfolding consistent_def by blast

lemma consistent_in_edge:
  "consistent g \<Longrightarrow> adjacency_list g k = Some es \<Longrightarrow> i \<in> incoming_edges es \<Longrightarrow>
     \<exists>r. edge_index g i = Some r \<and> to_id r = k"
  unfolding consistent_def by blast

lemma consistentI:
  assumes "\<And>k. contains (adjacency_list g) k = contains (vertex_index g) k"
    and "\<And>i r. edge_index g i = Some r \<Longrightarrow>
          \<exists>es. adjacency_list g (from_id r) = Some es \<and> i \<in> outgoing_edges es"
    and "\<And>i r. edge_index g i = Some r \<Longrightarrow>
          \<exists>es. adjacency_list g (to_id r) = Some es \<and> i \<in> incoming_edges es"
    and "\<And>k es i. adjacency_list g k = Some es \<Longrightarrow> i \<in> outgoing_edges es \<Longrightarrow>
          \<exists>r. edge_index g i = Some r \<and> from_id r = k"
    and "\<And>k es i. adjacency_list g k = Some es \<Longrightarrow> i \<in> incoming_edges es \<Longrightarrow>
          \<exists>r. edge_index g i = Some r \<and> to_id r = k"
  shows "consistent g"
  unfolding consistent_def using assms by blast

lemma emplace_absent: "m k = None \<Longrightarrow> emplace m k v = m(k \<mapsto> v)"
  by (simp add: emplace_def contains_def)

lemma subscript_update_apply:
  "subscript_update m k f k' =
     (if k' = k then Some (f (case m k of None \<Rightarrow> EdgeSet_default | Some es \<Rightarrow> es)) else m k')"
  by (simp add: subscript_update_def split: option.splits)

lemma consistent_add_vertex:
  assumes "consistent g"
  shows "consistent (snd (add_vertex hashV v g))"
proof (cases "contains (vertex_index g) (hashV v)")
  case True
  then show ?thesis using assms by (simp add: add_vertex_def)
next
  case False
  with consistent_dom [OF assms, of "hashV v"] have no_adj: "adjacency_list g (hashV v) = None"
    by (simp add: contains_def)
  define g' where "g' = snd (add_vertex hashV v g)"
  have vi: "vertex_index g' = (vertex_index g)(hashV v \<mapsto> v)"
    and ei: "edge_index g' = edge_index g"
    and al: "adjacency_list g' = (adjacency_list g)(hashV v \<mapsto> EdgeSet_default)"
    using False no_adj by (simp_all add: g'_def add_vertex_def emplace_def contains_def Let_def)
  have "consistent g'"
  proof (rule consistentI)
    show "contains (adjacency_list g') k = contains (vertex_index g') k" for k
      using consistent_dom [OF assms, of k] by (simp add: vi al contains_def)
    show "\<exists>es. adjacency_list g' (from_id r) = Some es \<and> i \<in> outgoing_edges es"
      if "edge_index g' i = Some r" for i r
      using consistent_edge_out [OF assms, of i r] that no_adj by (auto simp add: ei al)
    show "\<exists>es. adjacency_list g' (to_id r) = Some es \<and> i \<in> incoming_edges es"
      if "edge_index g' i = Some r" for i r
      using consistent_edge_in [OF assms, of i r] that no_adj by (auto simp add: ei al)
    show "\<exists>r. edge_index g' i = Some r \<and> from_id r = k"
      if "adjacency_list g' k = Some es" "i \<in> outgoing_edges es" for k es i
      using consistent_out_edge [OF assms, of k es i] that
      by (auto simp add: ei al EdgeSet_default_def split: if_splits)
    show "\<exists>r. edge_index g' i = Some r \<and> to_id r = k"
      if "adjacency_list g' k = Some es" "i \<in> incoming_edges es" for k es i
      using consistent_in_edge [OF assms, of k es i] that
      by (auto simp add: ei al EdgeSet_default_def split: if_splits)
  qed
  then show ?thesis by (simp add: g'_def)
qed

lemma consistent_delete_vertex:
  assumes "consistent g"
  shows "consistent (snd (delete_vertex i g))"
proof (cases "contains (vertex_index g) i \<and>
    (\<exists>es. adjacency_list g i = Some es \<and> incoming_edges es = {} \<and> outgoing_edges es = {})")
  case False
  then show ?thesis using assms
    by (auto simp add: delete_vertex_def split: option.splits)
next
  case True
  then obtain es0 where es0: "adjacency_list g i = Some es0" "incoming_edges es0 = {}"
    "outgoing_edges es0 = {}" by blast
  define g' where "g' = snd (delete_vertex i g)"
  have vi: "vertex_index g' = (vertex_index g)(i := None)"
    and ei: "edge_index g' = edge_index g"
    and al: "adjacency_list g' = (adjacency_list g)(i := None)"
    using True es0 by (simp_all add: g'_def delete_vertex_def erase_def)
  have no_from: "from_id r \<noteq> i" if "edge_index g e = Some r" for e r
    using consistent_edge_out [OF assms that] es0 by auto
  have no_to: "to_id r \<noteq> i" if "edge_index g e = Some r" for e r
    using consistent_edge_in [OF assms that] es0 by auto
  have "consistent g'"
  proof (rule consistentI)
    show "contains (adjacency_list g') k = contains (vertex_index g') k" for k
      using consistent_dom [OF assms, of k] by (simp add: vi al contains_def)
    show "\<exists>es. adjacency_list g' (from_id r) = Some es \<and> e \<in> outgoing_edges es"
      if "edge_index g' e = Some r" for e r
      using consistent_edge_out [OF assms, of e r] no_from [of e r] that by (auto simp add: ei al)
    show "\<exists>es. adjacency_list g' (to_id r) = Some es \<and> e \<in> incoming_edges es"
      if "edge_index g' e = Some r" for e r
      using consistent_edge_in [OF assms, of e r] no_to [of e r] that by (auto simp add: ei al)
    show "\<exists>r. edge_index g' e = Some r \<and> from_id r = k"
      if "adjacency_list g' k = Some es" "e \<in> outgoing_edges es" for k es e
      using consistent_out_edge [OF assms, of k es e] that
      by (auto simp add: ei al split: if_splits)
    show "\<exists>r. edge_index g' e = Some r \<and> to_id r = k"
      if "adjacency_list g' k = Some es" "e \<in> incoming_edges es" for k es e
      using consistent_in_edge [OF assms, of k es e] that
      by (auto simp add: ei al split: if_splits)
  qed
  then show ?thesis by (simp add: g'_def)
qed

lemma consistent_add_edge:
  assumes "consistent g"
  shows "consistent (snd (add_edge hashE a b e g))"
proof (cases "contains (vertex_index g) a \<and> contains (vertex_index g) b \<and>
    edge_index g (hashE e) = None")
  case False
  then show ?thesis using assms
    by (auto simp add: add_edge_def emplace_absent Let_def split: option.splits)
next
  case True
  from True consistent_dom [OF assms, of a] obtain esa where esa: "adjacency_list g a = Some esa"
    by (auto simp add: contains_def)
  from True consistent_dom [OF assms, of b] obtain esb where esb: "adjacency_list g b = Some esb"
    by (auto simp add: contains_def)
  define g' where "g' = snd (add_edge hashE a b e g)"
  have vi: "vertex_index g' = vertex_index g"
    and ei: "edge_index g' = (edge_index g)(hashE e \<mapsto> \<lparr>from_id = a, to_id = b, edge = e\<rparr>)"
    using True by (simp_all add: g'_def add_edge_def emplace_absent Let_def)
  have al_None: "adjacency_list g' k = None \<longleftrightarrow> adjacency_list g k = None" for k
    using True esa esb by (simp add: g'_def add_edge_def emplace_absent Let_def subscript_update_apply)
  have al_out: "outgoing_edges es' =
      (if k = a then insert (hashE e) (outgoing_edges es) else outgoing_edges es)"
    and al_in: "incoming_edges es' =
      (if k = b then insert (hashE e) (incoming_edges es) else incoming_edges es)"
    if "adjacency_list g k = Some es" "adjacency_list g' k = Some es'" for k es es'
    using True esa esb that
    by (auto simp add: g'_def add_edge_def emplace_absent Let_def subscript_update_apply split: if_splits)
  have "consistent g'"
  proof (rule consistentI)
    show "contains (adjacency_list g') k = contains (vertex_index g') k" for k
      using consistent_dom [OF assms, of k] al_None [of k] by (simp add: vi contains_def)
    show "\<exists>es. adjacency_list g' (from_id r) = Some es \<and> i \<in> outgoing_edges es"
      if "edge_index g' i = Some r" for i r
    proof (cases "i = hashE e")
      case True
      with that have "from_id r = a" by (auto simp add: ei)
      with al_None [of a] esa obtain es' where "adjacency_list g' a = Some es'" by auto
      with al_out [OF esa this] \<open>from_id r = a\<close> True show ?thesis by auto
    next
      case False
      with that have r: "edge_index g i = Some r" by (simp add: ei)
      from consistent_edge_out [OF assms r] obtain es where
        es: "adjacency_list g (from_id r) = Some es" "i \<in> outgoing_edges es" by blast
      with al_None [of "from_id r"] obtain es' where es': "adjacency_list g' (from_id r) = Some es'"
        by auto
      from al_out [OF es(1) es'] es(2) es' show ?thesis by auto
    qed
    show "\<exists>es. adjacency_list g' (to_id r) = Some es \<and> i \<in> incoming_edges es"
      if "edge_index g' i = Some r" for i r
    proof (cases "i = hashE e")
      case True
      with that have "to_id r = b" by (auto simp add: ei)
      with al_None [of b] esb obtain es' where "adjacency_list g' b = Some es'" by auto
      with al_in [OF esb this] \<open>to_id r = b\<close> True show ?thesis by auto
    next
      case False
      with that have r: "edge_index g i = Some r" by (simp add: ei)
      from consistent_edge_in [OF assms r] obtain es where
        es: "adjacency_list g (to_id r) = Some es" "i \<in> incoming_edges es" by blast
      with al_None [of "to_id r"] obtain es' where es': "adjacency_list g' (to_id r) = Some es'"
        by auto
      from al_in [OF es(1) es'] es(2) es' show ?thesis by auto
    qed
    show "\<exists>r. edge_index g' i = Some r \<and> from_id r = k"
      if "adjacency_list g' k = Some es'" "i \<in> outgoing_edges es'" for k es' i
    proof -
      from that(1) al_None [of k] obtain es where es: "adjacency_list g k = Some es" by auto
      from al_out [OF es that(1)] that(2)
      have "(i = hashE e \<and> k = a) \<or> i \<in> outgoing_edges es" by (auto split: if_splits)
      then show ?thesis
        using consistent_out_edge [OF assms es, of i] True by (auto simp add: ei)
    qed
    show "\<exists>r. edge_index g' i = Some r \<and> to_id r = k"
      if "adjacency_list g' k = Some es'" "i \<in> incoming_edges es'" for k es' i
    proof -
      from that(1) al_None [of k] obtain es where es: "adjacency_list g k = Some es" by auto
      from al_in [OF es that(1)] that(2)
      have "(i = hashE e \<and> k = b) \<or> i \<in> incoming_edges es" by (auto split: if_splits)
      then show ?thesis
        using consistent_in_edge [OF assms es, of i] True by (auto simp add: ei)
    qed
  qed
  then show ?thesis by (simp add: g'_def)
qed

lemma consistent_delete_edge:
  assumes "consistent g"
  shows "consistent (snd (delete_edge d g))"
proof (cases "edge_index g d")
  case None
  then show ?thesis using assms by (simp add: delete_edge_def)
next
  case (Some r0)
  from consistent_edge_out [OF assms Some] obtain esa where
    esa: "adjacency_list g (from_id r0) = Some esa" by blast
  from consistent_edge_in [OF assms Some] obtain esb where
    esb: "adjacency_list g (to_id r0) = Some esb" by blast
  define g' where "g' = snd (delete_edge d g)"
  have vi: "vertex_index g' = vertex_index g"
    and ei: "edge_index g' = (edge_index g)(d := None)"
    using Some by (simp_all add: g'_def delete_edge_def Let_def erase_def)
  have al_None: "adjacency_list g' k = None \<longleftrightarrow> adjacency_list g k = None" for k
    using Some esa esb by (simp add: g'_def delete_edge_def Let_def subscript_update_apply)
  have al_out: "outgoing_edges es' =
      (if k = from_id r0 then outgoing_edges es - {d} else outgoing_edges es)"
    and al_in: "incoming_edges es' =
      (if k = to_id r0 then incoming_edges es - {d} else incoming_edges es)"
    if "adjacency_list g k = Some es" "adjacency_list g' k = Some es'" for k es es'
    using Some esa esb that
    by (auto simp add: g'_def delete_edge_def Let_def subscript_update_apply split: if_splits)
  have "consistent g'"
  proof (rule consistentI)
    show "contains (adjacency_list g') k = contains (vertex_index g') k" for k
      using consistent_dom [OF assms, of k] al_None [of k] by (simp add: vi contains_def)
    show "\<exists>es. adjacency_list g' (from_id r) = Some es \<and> i \<in> outgoing_edges es"
      if "edge_index g' i = Some r" for i r
    proof -
      from that have i: "i \<noteq> d" and r: "edge_index g i = Some r"
        by (auto simp add: ei split: if_splits)
      from consistent_edge_out [OF assms r] obtain es where
        es: "adjacency_list g (from_id r) = Some es" "i \<in> outgoing_edges es" by blast
      with al_None [of "from_id r"] obtain es' where es': "adjacency_list g' (from_id r) = Some es'"
        by auto
      from al_out [OF es(1) es'] es(2) es' i show ?thesis by auto
    qed
    show "\<exists>es. adjacency_list g' (to_id r) = Some es \<and> i \<in> incoming_edges es"
      if "edge_index g' i = Some r" for i r
    proof -
      from that have i: "i \<noteq> d" and r: "edge_index g i = Some r"
        by (auto simp add: ei split: if_splits)
      from consistent_edge_in [OF assms r] obtain es where
        es: "adjacency_list g (to_id r) = Some es" "i \<in> incoming_edges es" by blast
      with al_None [of "to_id r"] obtain es' where es': "adjacency_list g' (to_id r) = Some es'"
        by auto
      from al_in [OF es(1) es'] es(2) es' i show ?thesis by auto
    qed
    show "\<exists>r. edge_index g' i = Some r \<and> from_id r = k"
      if "adjacency_list g' k = Some es'" "i \<in> outgoing_edges es'" for k es' i
    proof -
      from that(1) al_None [of k] obtain es where es: "adjacency_list g k = Some es" by auto
      from al_out [OF es that(1)] that(2)
      have mem: "i \<in> outgoing_edges es" and ne: "k = from_id r0 \<Longrightarrow> i \<noteq> d"
        by (auto split: if_splits)
      from consistent_out_edge [OF assms es mem] obtain r where
        r: "edge_index g i = Some r" "from_id r = k" by blast
      with Some ne have "i \<noteq> d" by auto
      with r show ?thesis by (simp add: ei)
    qed
    show "\<exists>r. edge_index g' i = Some r \<and> to_id r = k"
      if "adjacency_list g' k = Some es'" "i \<in> incoming_edges es'" for k es' i
    proof -
      from that(1) al_None [of k] obtain es where es: "adjacency_list g k = Some es" by auto
      from al_in [OF es that(1)] that(2)
      have mem: "i \<in> incoming_edges es" and ne: "k = to_id r0 \<Longrightarrow> i \<noteq> d"
        by (auto split: if_splits)
      from consistent_in_edge [OF assms es mem] obtain r where
        r: "edge_index g i = Some r" "to_id r = k" by blast
      with Some ne have "i \<noteq> d" by auto
      with r show ?thesis by (simp add: ei)
    qed
  qed
  then show ?thesis by (simp add: g'_def)
qed

lemma consistent_apply_call:
  "consistent g \<Longrightarrow> consistent (apply_call hashV hashE c g)"
  by (cases c)
    (simp_all add: consistent_add_vertex consistent_delete_vertex consistent_add_edge
      consistent_delete_edge)

lemma consistent_run_from:
  "consistent g \<Longrightarrow> consistent (run hashV hashE cs g)"
  by (induction cs arbitrary: g) (simp_all add: consistent_apply_call)

lemma consistent_run: "consistent (run hashV hashE cs empty_graph)"
  by (rule consistent_run_from [OF consistent_empty])

lemma run_append: "run hashV hashE (cs @ ds) g = run hashV hashE ds (run hashV hashE cs g)"
  by (induction cs arbitrary: g) simp_all

section \<open>The concrete inputs, evaluated\<close>

lemmas graph_eval = scenario_graph_def scenario_calls_def add_vertex_def add_edge_def
  delete_vertex_def delete_edge_def contains_def emplace_def erase_def subscript_update_def
  EdgeSet_default_def empty_graph_def Let_def id_hash_def

lemma scenario_adjacency:
  "adjacency_list scenario_graph 1 = Some \<lparr>incoming_edges = {31, 21}, outgoing_edges = {}\<rparr>"
  "adjacency_list scenario_graph 2 = Some \<lparr>incoming_edges = {52, 42}, outgoing_edges = {21}\<rparr>"
  "adjacency_list scenario_graph 1000 = None"
  by (simp_all add: graph_eval)

lemma scenario_edges:
  "edge_index scenario_graph 21 = Some \<lparr>from_id = 2, to_id = 1, edge = 21\<rparr>"
  "edge_index scenario_graph 42 = Some \<lparr>from_id = 4, to_id = 2, edge = 42\<rparr>"
  "edge_index scenario_graph 52 = Some \<lparr>from_id = 5, to_id = 2, edge = 52\<rparr>"
  by (simp_all add: graph_eval)

lemma isolated_vertex_6:
  "contains (vertex_index (snd (add_vertex id_hash 6 scenario_graph))) 6"
  "adjacency_list (snd (add_vertex id_hash 6 scenario_graph)) 6 = Some EdgeSet_default"
  "edge_index (snd (add_vertex id_hash 6 scenario_graph)) (id_hash 66) = None"
  by (simp_all add: graph_eval)

section \<open>Result: the consumers\<close>

lemma consume_ok_success: "consume_ok (success s) = Returns s"
  by (simp add: consume_ok_def success_def std_get_success_def)

lemma consume_error_error: "consume_error (error e) = Returns e"
  by (simp add: consume_error_def error_def std_get_error_def)

lemma consume_ok_error:
  "consume_ok (error e) = Throws (Runtime_error ''Cannot consume ok value from error result'')"
  by (simp add: consume_ok_def error_def)

lemma consume_error_success:
  "consume_error (success s) =
     Throws (Runtime_error ''Cannot consume error value from success result'')"
  by (simp add: consume_error_def success_def)

text \<open>
  Claim C2: \<open>consume_ok\<close> on a success result returns the success payload, \<open>consume_error\<close>
  on an error result returns the error payload, and the wrong consumer raises instead of
  returning a value.

  The class in headers/cgrapht/models.hpp does this (the four lemmas above). The class in
  headers/models.hpp tests the flag the other way round: \<open>consume_ok\<close> on a success result and
  \<open>consume_error\<close> on an error result throw \<open>std::runtime_error\<close>, and the wrong consumer
  reaches \<open>std::get\<close> on the alternative the variant does not hold, which throws
  \<open>std::bad_variant_access\<close>. Neither consumer ever returns a value.
\<close>

theorem consume_legacy_inverted:
  "consume_ok_legacy (success (23::int) :: (int, ErrorType) Result)
     = Throws (Runtime_error ''Cannot consume ok value from error result'') \<and>
   consume_error_legacy (error ABSENT_VERTX :: (int, ErrorType) Result)
     = Throws (Runtime_error ''Cannot consume error value from success result'') \<and>
   consume_ok_legacy (error ABSENT_VERTX :: (int, ErrorType) Result) = Throws Bad_variant_access \<and>
   consume_error_legacy (success (23::int) :: (int, ErrorType) Result) = Throws Bad_variant_access"
  by (simp add: consume_ok_legacy_def consume_error_legacy_def success_def error_def
      std_get_success_def std_get_error_def)

section \<open>Vertices\<close>

text \<open>
  Claim C7: in every state \<open>add_vertex(v)\<close> returns success with \<open>hash(v)\<close>; a second
  \<open>add_vertex(v)\<close> returns the same id and leaves the graph exactly as the first call left
  it; the vertex table then holds one payload under that id, the one stored first (\<open>v\<close>
  itself when the id was new). When the id is already stored the call returns the graph
  unchanged; when it is new the call stores \<open>v\<close> and an empty adjacency entry and nothing
  else. Either way the edge table, every stored payload and every existing adjacency entry
  are kept.
\<close>

theorem add_vertex_idempotent:
  "fst (add_vertex hashV v g) = success (hashV v) \<and>
   add_vertex hashV v (snd (add_vertex hashV v g))
     = (success (hashV v), snd (add_vertex hashV v g)) \<and>
   vertex_index (snd (add_vertex hashV v g)) (hashV v)
     = Some (case vertex_index g (hashV v) of None \<Rightarrow> v | Some w \<Rightarrow> w) \<and>
   (contains (vertex_index g) (hashV v) \<longrightarrow> add_vertex hashV v g = (success (hashV v), g)) \<and>
   (\<not> contains (vertex_index g) (hashV v) \<longrightarrow>
      add_vertex hashV v g =
        (success (hashV v),
         g\<lparr>vertex_index := (vertex_index g)(hashV v \<mapsto> v),
           adjacency_list :=
             (if contains (adjacency_list g) (hashV v) then adjacency_list g
              else (adjacency_list g)(hashV v \<mapsto> EdgeSet_default))\<rparr>)) \<and>
   edge_index (snd (add_vertex hashV v g)) = edge_index g \<and>
   (\<forall>k w. vertex_index g k = Some w \<longrightarrow> vertex_index (snd (add_vertex hashV v g)) k = Some w) \<and>
   (\<forall>k es. adjacency_list g k = Some es \<longrightarrow>
      adjacency_list (snd (add_vertex hashV v g)) k = Some es)"
  by (auto simp add: add_vertex_def Let_def contains_def emplace_def split: option.splits)

text \<open>
  C7 on the scenario: re-adding vertex 2 returns the graph unchanged, with the adjacency
  sets of vertex 2 as they were; adding the new vertex 6 keeps them too.
\<close>

theorem add_vertex_idempotent_witness:
  "add_vertex id_hash 2 scenario_graph = (success (id_hash 2), scenario_graph) \<and>
   adjacency_list (snd (add_vertex id_hash 2 scenario_graph)) 2
     = Some \<lparr>incoming_edges = {52, 42}, outgoing_edges = {21}\<rparr> \<and>
   vertex_index (snd (add_vertex id_hash 2 scenario_graph)) 2 = Some 2 \<and>
   add_vertex id_hash 6 scenario_graph =
     (success (id_hash 6),
      scenario_graph\<lparr>vertex_index := (vertex_index scenario_graph)(id_hash 6 \<mapsto> 6),
        adjacency_list :=
          (if contains (adjacency_list scenario_graph) (id_hash 6) then adjacency_list scenario_graph
           else (adjacency_list scenario_graph)(id_hash 6 \<mapsto> EdgeSet_default))\<rparr>) \<and>
   adjacency_list (snd (add_vertex id_hash 6 scenario_graph)) 2
     = Some \<lparr>incoming_edges = {52, 42}, outgoing_edges = {21}\<rparr>"
proof -
  have present: "contains (vertex_index scenario_graph) (id_hash 2)"
    by (simp add: graph_eval)
  have absent: "\<not> contains (vertex_index scenario_graph) (id_hash 6)"
    by (simp add: graph_eval)
  have payload: "vertex_index scenario_graph 2 = Some 2"
    by (simp add: graph_eval)
  note two = add_vertex_idempotent [of id_hash 2 scenario_graph]
  note six = add_vertex_idempotent [of id_hash 6 scenario_graph]
  from two present have c1: "add_vertex id_hash 2 scenario_graph = (success (id_hash 2), scenario_graph)"
    by blast
  from two scenario_adjacency(2)
  have c2: "adjacency_list (snd (add_vertex id_hash 2 scenario_graph)) 2
      = Some \<lparr>incoming_edges = {52, 42}, outgoing_edges = {21}\<rparr>"
    by blast
  from two payload have c3: "vertex_index (snd (add_vertex id_hash 2 scenario_graph)) 2 = Some 2"
    by blast
  from six absent have c4: "add_vertex id_hash 6 scenario_graph =
     (success (id_hash 6),
      scenario_graph\<lparr>vertex_index := (vertex_index scenario_graph)(id_hash 6 \<mapsto> 6),
        adjacency_list :=
          (if contains (adjacency_list scenario_graph) (id_hash 6) then adjacency_list scenario_graph
           else (adjacency_list scenario_graph)(id_hash 6 \<mapsto> EdgeSet_default))\<rparr>)"
    by blast
  from six scenario_adjacency(2)
  have c5: "adjacency_list (snd (add_vertex id_hash 6 scenario_graph)) 2
      = Some \<lparr>incoming_edges = {52, 42}, outgoing_edges = {21}\<rparr>"
    by blast
  from c1 c2 c3 c4 c5 show ?thesis by blast
qed

text \<open>
  Claim C4: \<open>delete_vertex(id)\<close> returns \<open>ABSENT_VERTX\<close> when \<open>id\<close> is not in the vertex table;
  returns \<open>VERTEX_NOT_FREE\<close> and leaves the state unchanged when \<open>id\<close> is present and its
  incoming or its outgoing set is non-empty; and, when \<open>id\<close> is present with both sets empty,
  returns success with \<open>id\<close> and removes \<open>id\<close> from the vertex table and from the adjacency
  index, changing nothing else. It holds in every state, reachable or not.
\<close>

theorem delete_vertex_cases:
  "(\<not> contains (vertex_index g) i \<longrightarrow> delete_vertex i g = (error ABSENT_VERTX, g)) \<and>
   (contains (vertex_index g) i \<and> adjacency_list g i = Some es \<and>
      (incoming_edges es \<noteq> {} \<or> outgoing_edges es \<noteq> {})
      \<longrightarrow> delete_vertex i g = (error VERTEX_NOT_FREE, g)) \<and>
   (contains (vertex_index g) i \<and> adjacency_list g i = Some es \<and>
      incoming_edges es = {} \<and> outgoing_edges es = {}
      \<longrightarrow> delete_vertex i g =
            (success i, g\<lparr>adjacency_list := (adjacency_list g)(i := None),
                          vertex_index := (vertex_index g)(i := None)\<rparr>) \<and>
          \<not> contains (vertex_index (snd (delete_vertex i g))) i \<and>
          \<not> contains (adjacency_list (snd (delete_vertex i g))) i)"
  by (auto simp add: delete_vertex_def contains_def erase_def)

text \<open>
  The three cases of C4 on the scenario: vertex 1000 was never inserted, vertex 2 has
  incident edges, and a freshly added vertex 6 is isolated.
\<close>

theorem delete_vertex_cases_witness:
  "delete_vertex 1000 scenario_graph = (error ABSENT_VERTX, scenario_graph) \<and>
   delete_vertex 2 scenario_graph = (error VERTEX_NOT_FREE, scenario_graph) \<and>
   fst (delete_vertex 6 (snd (add_vertex id_hash 6 scenario_graph))) = success 6 \<and>
   \<not> contains (vertex_index (snd (delete_vertex 6 (snd (add_vertex id_hash 6 scenario_graph))))) 6 \<and>
   \<not> contains (adjacency_list (snd (delete_vertex 6 (snd (add_vertex id_hash 6 scenario_graph))))) 6"
proof -
  have absent: "\<not> contains (vertex_index scenario_graph) 1000"
    by (simp add: graph_eval)
  have busy: "contains (vertex_index scenario_graph) 2 \<and>
      adjacency_list scenario_graph 2 = Some \<lparr>incoming_edges = {52, 42}, outgoing_edges = {21}\<rparr> \<and>
      (incoming_edges \<lparr>incoming_edges = {52, 42}, outgoing_edges = {21}\<rparr> \<noteq> {} \<or>
       outgoing_edges \<lparr>incoming_edges = {52, 42}, outgoing_edges = {21::nat}\<rparr> \<noteq> {})"
    by (simp add: graph_eval)
  have free: "contains (vertex_index (snd (add_vertex id_hash 6 scenario_graph))) 6 \<and>
      adjacency_list (snd (add_vertex id_hash 6 scenario_graph)) 6 = Some EdgeSet_default \<and>
      incoming_edges EdgeSet_default = {} \<and> outgoing_edges EdgeSet_default = {}"
    by (simp add: isolated_vertex_6 EdgeSet_default_def)
  from delete_vertex_cases [of scenario_graph 1000] absent
  have c1: "delete_vertex 1000 scenario_graph = (error ABSENT_VERTX, scenario_graph)"
    by blast
  from delete_vertex_cases [of scenario_graph 2 "\<lparr>incoming_edges = {52, 42}, outgoing_edges = {21}\<rparr>"]
    busy
  have c2: "delete_vertex 2 scenario_graph = (error VERTEX_NOT_FREE, scenario_graph)"
    by blast
  from delete_vertex_cases [of "snd (add_vertex id_hash 6 scenario_graph)" 6 EdgeSet_default] free
  have c3: "delete_vertex 6 (snd (add_vertex id_hash 6 scenario_graph)) =
      (success 6, (snd (add_vertex id_hash 6 scenario_graph))
        \<lparr>adjacency_list := (adjacency_list (snd (add_vertex id_hash 6 scenario_graph)))(6 := None),
         vertex_index := (vertex_index (snd (add_vertex id_hash 6 scenario_graph)))(6 := None)\<rparr>) \<and>
      \<not> contains (vertex_index (snd (delete_vertex 6 (snd (add_vertex id_hash 6 scenario_graph))))) 6 \<and>
      \<not> contains (adjacency_list (snd (delete_vertex 6 (snd (add_vertex id_hash 6 scenario_graph))))) 6"
    by blast
  from c3 have c4: "fst (delete_vertex 6 (snd (add_vertex id_hash 6 scenario_graph))) = success 6"
    by simp
  from c1 c2 c3 c4 show ?thesis by blast
qed

section \<open>Adjacency\<close>

lemma consistent_endpoints_present:
  assumes "consistent g" and "edge_index g i = Some r"
  shows "contains (vertex_index g) (from_id r)" and "contains (vertex_index g) (to_id r)"
proof -
  from consistent_edge_out [OF assms] consistent_dom [OF assms(1), of "from_id r"]
  show "contains (vertex_index g) (from_id r)" by (auto simp add: contains_def)
  from consistent_edge_in [OF assms] consistent_dom [OF assms(1), of "to_id r"]
  show "contains (vertex_index g) (to_id r)" by (auto simp add: contains_def)
qed

text \<open>
  Claim C5: in every state reached from the empty graph by a sequence of \<open>add_vertex\<close>,
  \<open>add_edge\<close>, \<open>delete_vertex\<close> and \<open>delete_edge\<close> calls, an edge id stored in the edge table
  is in the outgoing set of the adjacency entry of its record's \<open>from_id\<close> and of no other
  vertex, in the incoming set of the entry of its record's \<open>to_id\<close> and of no other vertex,
  and both endpoints are in the vertex table.
\<close>

theorem edge_listed_exactly_at_endpoints:
  assumes "g = run hashV hashE cs empty_graph" and "edge_index g i = Some r"
  shows "(\<forall>k. (\<exists>es. adjacency_list g k = Some es \<and> i \<in> outgoing_edges es) \<longleftrightarrow> k = from_id r) \<and>
         (\<forall>k. (\<exists>es. adjacency_list g k = Some es \<and> i \<in> incoming_edges es) \<longleftrightarrow> k = to_id r) \<and>
         contains (vertex_index g) (from_id r) \<and> contains (vertex_index g) (to_id r)"
proof -
  have c: "consistent g" using assms(1) by (simp add: consistent_run)
  from consistent_edge_out [OF c assms(2)] obtain eso where
    eso: "adjacency_list g (from_id r) = Some eso" "i \<in> outgoing_edges eso" by blast
  from consistent_edge_in [OF c assms(2)] obtain esi where
    esi: "adjacency_list g (to_id r) = Some esi" "i \<in> incoming_edges esi" by blast
  have out: "k = from_id r" if "adjacency_list g k = Some es" "i \<in> outgoing_edges es" for k es
    using consistent_out_edge [OF c that] assms(2) by auto
  have inc: "k = to_id r" if "adjacency_list g k = Some es" "i \<in> incoming_edges es" for k es
    using consistent_in_edge [OF c that] assms(2) by auto
  from eso esi out inc consistent_endpoints_present [OF c assms(2)] show ?thesis by blast
qed

text \<open>
  C5 on the scenario, for the edge 42 from 4 to 2.
\<close>

theorem edge_listed_exactly_at_endpoints_witness:
  "edge_index scenario_graph 42 = Some \<lparr>from_id = 4, to_id = 2, edge = 42\<rparr> \<and>
   (\<exists>es. adjacency_list scenario_graph 4 = Some es \<and> 42 \<in> outgoing_edges es) \<and>
   (\<nexists>es. adjacency_list scenario_graph 2 = Some es \<and> 42 \<in> outgoing_edges es) \<and>
   (\<exists>es. adjacency_list scenario_graph 2 = Some es \<and> 42 \<in> incoming_edges es) \<and>
   (\<nexists>es. adjacency_list scenario_graph 4 = Some es \<and> 42 \<in> incoming_edges es) \<and>
   contains (vertex_index scenario_graph) 4 \<and> contains (vertex_index scenario_graph) 2"
proof -
  have r: "scenario_graph = run id_hash id_hash scenario_calls empty_graph"
    by (simp add: scenario_graph_def)
  have e: "edge_index scenario_graph 42 = Some \<lparr>from_id = 4, to_id = 2, edge = 42\<rparr>"
    by (simp add: graph_eval)
  show ?thesis
    using edge_listed_exactly_at_endpoints [OF r e] e by simp
qed

section \<open>Queries\<close>

lemma transform_at_outgoing:
  assumes "consistent g" "adjacency_list g k = Some es"
  shows "transform_at f (edge_index g) (outgoing_edges es) =
    Returns ((\<lambda>i. f (the (edge_index g i))) ` outgoing_edges es)"
  using consistent_out_edge [OF assms]
  by (fastforce simp add: transform_at_def contains_def)

lemma transform_at_incoming:
  assumes "consistent g" "adjacency_list g k = Some es"
  shows "transform_at f (edge_index g) (incoming_edges es) =
    Returns ((\<lambda>i. f (the (edge_index g i))) ` incoming_edges es)"
  using consistent_in_edge [OF assms]
  by (fastforce simp add: transform_at_def contains_def)

lemma get_children_consistent:
  assumes "consistent g" "adjacency_list g k = Some es"
  shows "get_children k g = Returns (success ((\<lambda>i. to_id (the (edge_index g i))) ` outgoing_edges es))"
  by (simp add: get_children_def assms(2) transform_at_outgoing [OF assms])

lemma get_parents_consistent:
  assumes "consistent g" "adjacency_list g k = Some es"
  shows "get_parents k g = Returns (success ((\<lambda>i. from_id (the (edge_index g i))) ` incoming_edges es))"
  by (simp add: get_parents_def assms(2) transform_at_incoming [OF assms])

lemma get_neighbours_consistent:
  assumes "consistent g" "adjacency_list g k = Some es"
  shows "get_neighbours k g = Returns (success
    ((\<lambda>i. to_id (the (edge_index g i))) ` outgoing_edges es \<union>
     (\<lambda>i. from_id (the (edge_index g i))) ` incoming_edges es))"
  by (simp add: get_neighbours_def assms(2) transform_at_outgoing [OF assms]
      transform_at_incoming [OF assms])

text \<open>
  \<open>get_neighbours\<close> of headers/cgrapht/graph.hpp returns the union of the children and the
  parents, in every reachable state and for every stored vertex.
\<close>

lemma get_neighbours_union:
  assumes "g = run hashV hashE cs empty_graph" and "contains (vertex_index g) k"
  shows "\<exists>children parents.
           get_children k g = Returns (success children) \<and>
           get_parents k g = Returns (success parents) \<and>
           get_neighbours k g = Returns (success (children \<union> parents)) \<and>
           (\<forall>es i r. adjacency_list g k = Some es \<and> i \<in> outgoing_edges es \<and>
              edge_index g i = Some r \<longrightarrow> to_id r \<in> children \<union> parents)"
proof -
  have c: "consistent g" using assms(1) by (simp add: consistent_run)
  from consistent_dom [OF c, of k] assms(2) obtain es where es: "adjacency_list g k = Some es"
    by (auto simp add: contains_def)
  show ?thesis
    using get_children_consistent [OF c es] get_parents_consistent [OF c es]
      get_neighbours_consistent [OF c es] es
    by force
qed

text \<open>
  Claim C1: for a vertex id present in the graph, \<open>get_neighbours\<close> succeeds with exactly the
  union of what \<open>get_children\<close> and \<open>get_parents\<close> return, so every one-step outgoing
  neighbour is in the returned set.

  The copy in headers/cgrapht/graph.hpp does this (\<open>get_neighbours_union\<close> above). The copy
  in headers/graph.hpp, which test_neighbour_functions.cc includes, does not: on the tests'
  own scenario, vertex 2 has the child 1 and the parents 4 and 5, the test requires three
  neighbours, and that copy returns only the parents.
\<close>

theorem get_neighbours_legacy_omits_children:
  "get_children 2 scenario_graph = Returns (success {1}) \<and>
   get_parents 2 scenario_graph = Returns (success {4, 5}) \<and>
   get_neighbours 2 scenario_graph = Returns (success {1, 4, 5}) \<and>
   get_neighbours_legacy 2 scenario_graph = Returns (success {4, 5})"
  by (auto simp add: get_children_def get_parents_def get_neighbours_def get_neighbours_legacy_def
      transform_at_def scenario_adjacency scenario_edges contains_def success_def)

text \<open>
  Claim C8: in every reachable state, for an id that is not in the vertex table each of
  \<open>get_children\<close>, \<open>get_parents\<close>, \<open>get_neighbours\<close>, \<open>get_outgoing_edges\<close> and
  \<open>get_incoming_edges\<close> returns \<open>ABSENT_VERTX\<close>; for an id that is present with both
  adjacency sets empty each of them returns success with the empty set.
\<close>

theorem absence_and_isolation:
  assumes "g = run hashV hashE cs empty_graph"
  shows "(\<not> contains (vertex_index g) k \<longrightarrow>
            get_children k g = Returns (error ABSENT_VERTX) \<and>
            get_parents k g = Returns (error ABSENT_VERTX) \<and>
            get_neighbours k g = Returns (error ABSENT_VERTX) \<and>
            get_outgoing_edges k g = error ABSENT_VERTX \<and>
            get_incoming_edges k g = error ABSENT_VERTX) \<and>
         (contains (vertex_index g) k \<and> adjacency_list g k = Some es \<and>
            incoming_edges es = {} \<and> outgoing_edges es = {} \<longrightarrow>
            get_children k g = Returns (success {}) \<and>
            get_parents k g = Returns (success {}) \<and>
            get_neighbours k g = Returns (success {}) \<and>
            get_outgoing_edges k g = success {} \<and>
            get_incoming_edges k g = success {})"
proof -
  have c: "consistent g" using assms by (simp add: consistent_run)
  have absent: "adjacency_list g k = None" if "\<not> contains (vertex_index g) k"
    using consistent_dom [OF c, of k] that by (simp add: contains_def)
  show ?thesis
    using absent
    by (auto simp add: get_children_def get_parents_def get_neighbours_def
        get_outgoing_edges_def get_incoming_edges_def transform_at_def)
qed

text \<open>
  C8 on the scenario: id 1000 was never inserted; a freshly added vertex 6 is isolated.
\<close>

theorem absence_and_isolation_witness:
  "get_children 1000 scenario_graph = Returns (error ABSENT_VERTX) \<and>
   get_neighbours 1000 scenario_graph = Returns (error ABSENT_VERTX) \<and>
   get_incoming_edges 1000 scenario_graph = error ABSENT_VERTX \<and>
   get_parents 6 (snd (add_vertex id_hash 6 scenario_graph)) = Returns (success {}) \<and>
   get_neighbours 6 (snd (add_vertex id_hash 6 scenario_graph)) = Returns (success {}) \<and>
   get_outgoing_edges 6 (snd (add_vertex id_hash 6 scenario_graph)) = success {}"
proof -
  have r1: "scenario_graph = run id_hash id_hash scenario_calls empty_graph"
    by (simp add: scenario_graph_def)
  have a1: "\<not> contains (vertex_index scenario_graph) 1000"
    by (simp add: graph_eval)
  have r2: "snd (add_vertex id_hash 6 scenario_graph) =
      run id_hash id_hash (scenario_calls @ [Add_vertex 6]) empty_graph"
    by (simp add: scenario_graph_def scenario_calls_def)
  have a2: "contains (vertex_index (snd (add_vertex id_hash 6 scenario_graph))) 6 \<and>
      adjacency_list (snd (add_vertex id_hash 6 scenario_graph)) 6 = Some EdgeSet_default \<and>
      incoming_edges EdgeSet_default = {} \<and> outgoing_edges EdgeSet_default = {}"
    by (simp add: graph_eval)
  show ?thesis
    using absence_and_isolation [OF r1, of 1000] a1
      absence_and_isolation [OF r2, of 6 EdgeSet_default] a2
    by simp
qed

section \<open>Edges\<close>

lemma add_edge_ok_binding:
  assumes "add_edge hashE a b e g = (res, g')" and "is_ok res"
  shows "\<exists>r. edge_index g' (hashE e) = Some r \<and> from_id r = a \<and> to_id r = b \<and>
             edge r = (case edge_index g (hashE e) of None \<Rightarrow> e | Some r0 \<Rightarrow> edge r0)"
  using assms
  by (auto simp add: add_edge_def emplace_absent Let_def is_ok_def error_def split: if_splits option.splits)

text \<open>
  Claim C6: in a reachable state with \<open>a\<close> and \<open>b\<close> present, right after a successful
  \<open>add_edge(a,b,e)\<close> all four queries succeed, \<open>get_children(a)\<close> contains \<open>b\<close>,
  \<open>get_parents(b)\<close> contains \<open>a\<close>, \<open>get_outgoing_edges(a)\<close> contains \<open>hash(e)\<close> and
  \<open>get_incoming_edges(b)\<close> contains \<open>hash(e)\<close>.
\<close>

theorem add_edge_symmetry:
  assumes "g = run hashV hashE cs empty_graph"
    and "contains (vertex_index g) a" and "contains (vertex_index g) b"
    and "add_edge hashE a b e g = (res, g')" and "is_ok res"
  shows "\<exists>children parents outgoing incoming.
           get_children a g' = Returns (success children) \<and> b \<in> children \<and>
           get_parents b g' = Returns (success parents) \<and> a \<in> parents \<and>
           get_outgoing_edges a g' = success outgoing \<and> hashE e \<in> outgoing \<and>
           get_incoming_edges b g' = success incoming \<and> hashE e \<in> incoming"
proof -
  have "g' = run hashV hashE (cs @ [Add_edge a b e]) empty_graph"
    using assms(1,4) by (simp add: run_append)
  then have c: "consistent g'" by (simp add: consistent_run)
  from add_edge_ok_binding [OF assms(4,5)] obtain r where
    r: "edge_index g' (hashE e) = Some r" "from_id r = a" "to_id r = b" by blast
  from consistent_edge_out [OF c r(1)] r(2) obtain eso where
    eso: "adjacency_list g' a = Some eso" "hashE e \<in> outgoing_edges eso" by auto
  from consistent_edge_in [OF c r(1)] r(3) obtain esi where
    esi: "adjacency_list g' b = Some esi" "hashE e \<in> incoming_edges esi" by auto
  have "b \<in> (\<lambda>i. to_id (the (edge_index g' i))) ` outgoing_edges eso"
    using eso(2) r by force
  moreover have "a \<in> (\<lambda>i. from_id (the (edge_index g' i))) ` incoming_edges esi"
    using esi(2) r by force
  ultimately show ?thesis
    using get_children_consistent [OF c eso(1)] get_parents_consistent [OF c esi(1)] eso esi
    by (auto simp add: get_outgoing_edges_def get_incoming_edges_def)
qed

text \<open>
  C6 on the scenario, adding the edge 34 from 3 to 4.
\<close>

theorem add_edge_symmetry_witness:
  "\<exists>children parents outgoing incoming.
      get_children 3 (snd (add_edge id_hash 3 4 34 scenario_graph)) = Returns (success children) \<and>
      4 \<in> children \<and>
      get_parents 4 (snd (add_edge id_hash 3 4 34 scenario_graph)) = Returns (success parents) \<and>
      3 \<in> parents \<and>
      get_outgoing_edges 3 (snd (add_edge id_hash 3 4 34 scenario_graph)) = success outgoing \<and>
      id_hash 34 \<in> outgoing \<and>
      get_incoming_edges 4 (snd (add_edge id_hash 3 4 34 scenario_graph)) = success incoming \<and>
      id_hash 34 \<in> incoming"
proof -
  have r: "scenario_graph = run id_hash id_hash scenario_calls empty_graph"
    by (simp add: scenario_graph_def)
  have a: "contains (vertex_index scenario_graph) 3" and b: "contains (vertex_index scenario_graph) 4"
    by (simp_all add: graph_eval)
  have call: "add_edge id_hash 3 4 34 scenario_graph =
      (success 34, snd (add_edge id_hash 3 4 34 scenario_graph))"
    by (simp add: graph_eval)
  have ok: "is_ok (success 34 :: (size_t, ErrorType) Result)"
    by (simp add: is_ok_def success_def)
  show ?thesis
    by (rule add_edge_symmetry [OF r a b call ok])
qed

text \<open>
  Claim C10: in a reachable state whose edge table maps \<open>hash(e)\<close> to \<open>{a,b,e}\<close>, a call
  \<open>add_edge(a,b,e')\<close> with \<open>hash(e') = hash(e)\<close> returns success with that id and returns the
  graph unchanged; the stored payload is still \<open>e\<close>.
\<close>

theorem add_edge_same_binding_ignores_payload:
  assumes "g = run hashV hashE cs empty_graph"
    and "edge_index g (hashE e) = Some \<lparr>from_id = a, to_id = b, edge = e\<rparr>"
    and "hashE e' = hashE e"
  shows "add_edge hashE a b e' g = (success (hashE e), g) \<and>
         get_edge (hashE e) (snd (add_edge hashE a b e' g))
           = success \<lparr>from_id = a, to_id = b, edge = e\<rparr>"
proof -
  have c: "consistent g" using assms(1) by (simp add: consistent_run)
  from consistent_endpoints_present [OF c assms(2)]
  have "contains (vertex_index g) a" and "contains (vertex_index g) b" by simp_all
  then show ?thesis
    using assms(2,3) by (simp add: add_edge_def emplace_absent Let_def get_edge_def)
qed

text \<open>
  C10 with payloads 5 and 15, which hash to the same id.
\<close>

theorem add_edge_same_binding_ignores_payload_witness:
  "add_edge colliding_hash 1 2 15 collision_graph = (success 5, collision_graph) \<and>
   get_edge 5 (snd (add_edge colliding_hash 1 2 15 collision_graph))
     = success \<lparr>from_id = 1, to_id = 2, edge = 5\<rparr>"
proof -
  have r: "collision_graph = run id_hash colliding_hash collision_calls empty_graph"
    by (simp add: collision_graph_def)
  have e: "edge_index collision_graph (colliding_hash 5) = Some \<lparr>from_id = 1, to_id = 2, edge = 5\<rparr>"
    by (simp add: collision_graph_def collision_calls_def graph_eval colliding_hash_def)
  have h: "colliding_hash 15 = colliding_hash 5"
    by (simp add: colliding_hash_def)
  have five: "colliding_hash 5 = 5"
    by (simp add: colliding_hash_def)
  from add_edge_same_binding_ignores_payload [OF r e h]
  show ?thesis unfolding five .
qed

lemma edge_index_apply_call_kept:
  assumes "c \<noteq> Delete_edge i" and "edge_index g i = Some r"
  shows "edge_index (apply_call hashV hashE c g) i = Some r"
  using assms
  by (cases c)
    (auto simp add: add_vertex_def delete_vertex_def add_edge_def emplace_absent
      delete_edge_def Let_def erase_def split: option.splits)

lemma edge_index_run_kept:
  assumes "Delete_edge i \<notin> set cs" and "edge_index g i = Some r"
  shows "edge_index (run hashV hashE cs g) i = Some r"
  using assms
proof (induction cs arbitrary: g)
  case Nil
  then show ?case by simp
next
  case (Cons c cs)
  from Cons.prems have "c \<noteq> Delete_edge i" and rest: "Delete_edge i \<notin> set cs" by auto
  from edge_index_apply_call_kept [OF this(1) Cons.prems(2)]
  have "edge_index (apply_call hashV hashE c g) i = Some r" .
  from Cons.IH [OF rest this] show ?case by simp
qed

text \<open>
  Claim C3, as amended: after a successful \<open>add_edge(a,b,e)\<close>, in every state reached from
  there by calls other than \<open>delete_edge(hash(e))\<close>, a call \<open>add_edge(c,d,e)\<close> with \<open>c\<close> and \<open>d\<close>
  present and \<open>(c,d) \<noteq> (a,b)\<close> returns \<open>EDGE_ALREADY_EXISTS\<close> and leaves the whole graph
  unchanged, and \<open>get_edge(hash(e))\<close> still returns the record that was bound to \<open>hash(e)\<close>
  when \<open>add_edge(a,b,e)\<close> succeeded. Its endpoints are \<open>(a,b)\<close>; its payload is \<open>e\<close> when that
  call created the record, and otherwise the payload that was stored under the same id
  before.
\<close>

theorem conflicting_add_edge_rejected:
  assumes "add_edge hashE a b e g0 = (res, g1)" and "is_ok res"
    and "g = run hashV hashE cs g1" and "Delete_edge (hashE e) \<notin> set cs"
    and "contains (vertex_index g) c" and "contains (vertex_index g) d"
    and "(c, d) \<noteq> (a, b)"
  shows "add_edge hashE c d e g = (error EDGE_ALREADY_EXISTS, g) \<and>
         (\<exists>r. get_edge (hashE e) g1 = success r \<and>
              get_edge (hashE e) (snd (add_edge hashE c d e g)) = success r \<and>
              from_id r = a \<and> to_id r = b \<and>
              edge r = (case edge_index g0 (hashE e) of None \<Rightarrow> e | Some r0 \<Rightarrow> edge r0))"
proof -
  from add_edge_ok_binding [OF assms(1,2)] obtain r where
    r: "edge_index g1 (hashE e) = Some r" "from_id r = a" "to_id r = b"
      "edge r = (case edge_index g0 (hashE e) of None \<Rightarrow> e | Some r0 \<Rightarrow> edge r0)"
    by blast
  from edge_index_run_kept [OF assms(4) r(1)] assms(3)
  have kept: "edge_index g (hashE e) = Some r" by simp
  have rejected: "add_edge hashE c d e g = (error EDGE_ALREADY_EXISTS, g)"
    using assms(5,6,7) kept r(2,3) by (auto simp add: add_edge_def emplace_absent Let_def)
  show ?thesis
    using rejected kept r by (auto simp add: get_edge_def)
qed

text \<open>
  The amended C3 on the scenario: edge 21 was added as 2\<rightarrow>1, three more edges were added
  afterwards, and \<open>add_edge(3,1,21)\<close> is rejected.
\<close>

theorem conflicting_add_edge_rejected_witness:
  "add_edge id_hash 3 1 21 scenario_graph = (error EDGE_ALREADY_EXISTS, scenario_graph) \<and>
   (\<exists>r. get_edge (id_hash 21)
          (snd (add_edge id_hash 2 1 21 (run id_hash id_hash (take 5 scenario_calls) empty_graph)))
          = success r \<and>
        get_edge (id_hash 21) (snd (add_edge id_hash 3 1 21 scenario_graph)) = success r \<and>
        from_id r = 2 \<and> to_id r = 1 \<and>
        edge r = (case edge_index (run id_hash id_hash (take 5 scenario_calls) empty_graph) (id_hash 21)
                  of None \<Rightarrow> 21 | Some r0 \<Rightarrow> edge r0))"
proof -
  have call: "add_edge id_hash 2 1 21 (run id_hash id_hash (take 5 scenario_calls) empty_graph) =
      (success 21,
       snd (add_edge id_hash 2 1 21 (run id_hash id_hash (take 5 scenario_calls) empty_graph)))"
    by (simp add: graph_eval)
  have ok: "is_ok (success 21 :: (size_t, ErrorType) Result)"
    by (simp add: is_ok_def success_def)
  have later: "scenario_graph = run id_hash id_hash (drop 6 scenario_calls)
      (snd (add_edge id_hash 2 1 21 (run id_hash id_hash (take 5 scenario_calls) empty_graph)))"
    by (simp add: scenario_graph_def scenario_calls_def)
  have kept: "Delete_edge (id_hash 21) \<notin> set (drop 6 scenario_calls)"
    by (simp add: scenario_calls_def)
  have c: "contains (vertex_index scenario_graph) 3" and d: "contains (vertex_index scenario_graph) 1"
    by (simp_all add: graph_eval)
  have ne: "(3::nat, 1::nat) \<noteq> (2, 1)" by simp
  show ?thesis
    by (rule conflicting_add_edge_rejected [OF call ok later kept c d ne])
qed

text \<open>
  C3 as stated says that the record returned is \<open>{a,b,e}\<close>. With payloads 5 and 15 hashing
  to the same id, \<open>add_edge(1,2,15)\<close> succeeds on a graph that already holds \<open>{1,2,5}\<close>, the
  conflicting \<open>add_edge(2,3,15)\<close> is rejected, and \<open>get_edge\<close> returns \<open>{1,2,5}\<close>, not
  \<open>{1,2,15}\<close>.
\<close>

theorem conflicting_add_edge_counterexample:
  "fst (add_edge colliding_hash 1 2 15 collision_graph) = success 5 \<and>
   snd (add_edge colliding_hash 1 2 15 collision_graph) = collision_graph \<and>
   contains (vertex_index collision_graph) 2 \<and> contains (vertex_index collision_graph) 3 \<and>
   add_edge colliding_hash 2 3 15 collision_graph = (error EDGE_ALREADY_EXISTS, collision_graph) \<and>
   get_edge (colliding_hash 15) (snd (add_edge colliding_hash 2 3 15 collision_graph))
     = success \<lparr>from_id = 1, to_id = 2, edge = 5\<rparr> \<and>
   get_edge (colliding_hash 15) (snd (add_edge colliding_hash 2 3 15 collision_graph))
     \<noteq> success \<lparr>from_id = 1, to_id = 2, edge = 15\<rparr>"
proof -
  have vi: "vertex_index collision_graph 1 = Some 1" "vertex_index collision_graph 2 = Some 2"
    "vertex_index collision_graph 3 = Some 3"
    by (simp_all add: collision_graph_def collision_calls_def graph_eval)
  have ei: "edge_index collision_graph 5 = Some \<lparr>from_id = 1, to_id = 2, edge = 5\<rparr>"
    by (simp add: collision_graph_def collision_calls_def graph_eval colliding_hash_def)
  have h: "colliding_hash 15 = 5" by (simp add: colliding_hash_def)
  show ?thesis
    using vi ei h by (simp add: add_edge_def emplace_absent Let_def contains_def get_edge_def success_def)
qed

section \<open>Self-loops\<close>

lemma listed_apply_call_kept:
  assumes "c \<noteq> Delete_edge x"
    and "contains (vertex_index g) v"
    and "adjacency_list g v = Some es" and "x \<in> outgoing_edges es"
  shows "contains (vertex_index (apply_call hashV hashE c g)) v \<and>
         (\<exists>es'. adjacency_list (apply_call hashV hashE c g) v = Some es' \<and> x \<in> outgoing_edges es')"
proof (cases c)
  case (Add_vertex w)
  then show ?thesis using assms
    by (auto simp add: add_vertex_def Let_def contains_def emplace_def)
next
  case (Delete_vertex k)
  then show ?thesis using assms
    by (auto simp add: delete_vertex_def contains_def erase_def split: option.splits)
next
  case (Add_edge a b e)
  then show ?thesis using assms
    by (auto simp add: add_edge_def emplace_absent Let_def contains_def subscript_update_apply
        split: option.splits)
next
  case (Delete_edge j)
  with assms(1) have "j \<noteq> x" by simp
  then show ?thesis using Delete_edge assms(2-)
    by (auto simp add: delete_edge_def Let_def contains_def subscript_update_apply
        split: option.splits)
qed

lemma listed_run_kept:
  assumes "Delete_edge x \<notin> set cs"
    and "contains (vertex_index g) v"
    and "adjacency_list g v = Some es" and "x \<in> outgoing_edges es"
  shows "contains (vertex_index (run hashV hashE cs g)) v \<and>
         (\<exists>es'. adjacency_list (run hashV hashE cs g) v = Some es' \<and> x \<in> outgoing_edges es')"
  using assms
proof (induction cs arbitrary: g es)
  case Nil
  then show ?case by simp
next
  case (Cons c cs)
  from Cons.prems(1) have c: "c \<noteq> Delete_edge x" and rest: "Delete_edge x \<notin> set cs" by auto
  from listed_apply_call_kept [OF c Cons.prems(2-4), of hashV hashE] obtain es' where
    "contains (vertex_index (apply_call hashV hashE c g)) v"
    "adjacency_list (apply_call hashV hashE c g) v = Some es'" "x \<in> outgoing_edges es'"
    by blast
  from Cons.IH [OF rest this] show ?case by simp
qed

lemma delete_vertex_not_free:
  assumes "contains (vertex_index g) v"
    and "adjacency_list g v = Some es" and "x \<in> outgoing_edges es"
  shows "delete_vertex v g = (error VERTEX_NOT_FREE, g)"
  using assms by (auto simp add: delete_vertex_def)

lemma delete_self_loop_then_vertex:
  assumes "contains (vertex_index g) v" and "edge_index g x = Some r"
    and "from_id r = v" and "to_id r = v" and "adjacency_list g v = Some es"
  shows "fst (delete_edge x g) = success x"
    and "fst (delete_vertex v (snd (delete_edge x g))) =
      (if incoming_edges es \<subseteq> {x} \<and> outgoing_edges es \<subseteq> {x}
       then success v else error VERTEX_NOT_FREE)"
proof -
  show "fst (delete_edge x g) = success x"
    using assms(2) by (simp add: delete_edge_def Let_def)
  have vi: "contains (vertex_index (snd (delete_edge x g))) v"
    using assms(1,2) by (simp add: delete_edge_def Let_def)
  have al: "adjacency_list (snd (delete_edge x g)) v =
      Some (es\<lparr>outgoing_edges := outgoing_edges es - {x},
        incoming_edges := incoming_edges es - {x}\<rparr>)"
    using assms(2-5) by (simp add: delete_edge_def Let_def subscript_update_apply)
  show "fst (delete_vertex v (snd (delete_edge x g))) =
      (if incoming_edges es \<subseteq> {x} \<and> outgoing_edges es \<subseteq> {x}
       then success v else error VERTEX_NOT_FREE)"
    using vi al by (simp add: delete_vertex_def Diff_eq_empty_iff)
qed

text \<open>
  Claim C9, as amended: in every state with \<open>v\<close> present and \<open>hash(e)\<close> not in the edge table,
  \<open>add_edge(v,v,e)\<close> returns success with \<open>hash(e)\<close>; afterwards \<open>hash(e)\<close> is in both the
  outgoing and the incoming set of \<open>v\<close>. After any further calls other than
  \<open>delete_edge(hash(e))\<close>, \<open>delete_vertex(v)\<close> returns \<open>VERTEX_NOT_FREE\<close> and
  \<open>delete_edge(hash(e))\<close> succeeds; right after that \<open>delete_edge\<close>, \<open>delete_vertex(v)\<close>
  succeeds exactly when the adjacency sets of \<open>v\<close> held no other edge id at the time of the
  \<open>delete_edge\<close>, and returns \<open>VERTEX_NOT_FREE\<close> otherwise. When no call comes in between,
  that is exactly when the sets of \<open>v\<close> held no other edge id before the self-loop was added.
\<close>

theorem self_loop_gates_delete_vertex:
  assumes "contains (vertex_index g) v" and "edge_index g (hashE e) = None"
    and "g1 = snd (add_edge hashE v v e g)"
    and "g2 = snd (delete_edge (hashE e) g1)"
  shows "fst (add_edge hashE v v e g) = success (hashE e) \<and>
         (\<exists>es. adjacency_list g1 v = Some es \<and>
            hashE e \<in> outgoing_edges es \<and> hashE e \<in> incoming_edges es) \<and>
         (\<forall>cs. Delete_edge (hashE e) \<notin> set cs \<longrightarrow>
            fst (delete_vertex v (run hashV hashE cs g1)) = error VERTEX_NOT_FREE \<and>
            fst (delete_edge (hashE e) (run hashV hashE cs g1)) = success (hashE e) \<and>
            (\<exists>es. adjacency_list (run hashV hashE cs g1) v = Some es \<and>
               hashE e \<in> outgoing_edges es \<and>
               fst (delete_vertex v (snd (delete_edge (hashE e) (run hashV hashE cs g1)))) =
                 (if incoming_edges es \<subseteq> {hashE e} \<and> outgoing_edges es \<subseteq> {hashE e}
                  then success v else error VERTEX_NOT_FREE))) \<and>
         fst (delete_edge (hashE e) g1) = success (hashE e) \<and>
         fst (delete_vertex v g2) =
           (if (case adjacency_list g v of None \<Rightarrow> True
                | Some es \<Rightarrow> incoming_edges es \<subseteq> {hashE e} \<and> outgoing_edges es \<subseteq> {hashE e})
            then success v else error VERTEX_NOT_FREE)"
proof -
  have added: "fst (add_edge hashE v v e g) = success (hashE e)"
    using assms(1,2) by (simp add: add_edge_def emplace_absent Let_def)
  have vi1: "contains (vertex_index g1) v"
    using assms(1,2,3) by (simp add: add_edge_def emplace_absent Let_def)
  have ei1: "edge_index g1 (hashE e) = Some \<lparr>from_id = v, to_id = v, edge = e\<rparr>"
    using assms(1,2,3) by (simp add: add_edge_def emplace_absent Let_def)
  define es0 where "es0 = (case adjacency_list g v of None \<Rightarrow> EdgeSet_default | Some es \<Rightarrow> es)"
  have al1: "adjacency_list g1 v = Some (es0\<lparr>outgoing_edges := insert (hashE e) (outgoing_edges es0),
      incoming_edges := insert (hashE e) (incoming_edges es0)\<rparr>)"
    using assms(1,2,3)
    by (simp add: add_edge_def emplace_absent Let_def subscript_update_apply es0_def)
  have listed: "\<exists>es. adjacency_list g1 v = Some es \<and>
      hashE e \<in> outgoing_edges es \<and> hashE e \<in> incoming_edges es"
    by (simp add: al1)
  have later: "fst (delete_vertex v (run hashV hashE cs g1)) = error VERTEX_NOT_FREE \<and>
      fst (delete_edge (hashE e) (run hashV hashE cs g1)) = success (hashE e) \<and>
      (\<exists>es. adjacency_list (run hashV hashE cs g1) v = Some es \<and>
         hashE e \<in> outgoing_edges es \<and>
         fst (delete_vertex v (snd (delete_edge (hashE e) (run hashV hashE cs g1)))) =
           (if incoming_edges es \<subseteq> {hashE e} \<and> outgoing_edges es \<subseteq> {hashE e}
            then success v else error VERTEX_NOT_FREE))"
    if "Delete_edge (hashE e) \<notin> set cs" for cs
  proof -
    from listed obtain es where es: "adjacency_list g1 v = Some es" "hashE e \<in> outgoing_edges es"
      by blast
    from listed_run_kept [OF that vi1 es, of hashV hashE] obtain es' where
      kept: "contains (vertex_index (run hashV hashE cs g1)) v"
        "adjacency_list (run hashV hashE cs g1) v = Some es'" "hashE e \<in> outgoing_edges es'"
      by blast
    have edge: "edge_index (run hashV hashE cs g1) (hashE e)
        = Some \<lparr>from_id = v, to_id = v, edge = e\<rparr>"
      by (rule edge_index_run_kept [OF that ei1])
    from delete_vertex_not_free [OF kept]
    have "fst (delete_vertex v (run hashV hashE cs g1)) = error VERTEX_NOT_FREE" by simp
    moreover note delete_self_loop_then_vertex [OF kept(1) edge _ _ kept(2), simplified]
    ultimately show ?thesis using kept(2,3) by simp
  qed
  have deleted: "fst (delete_edge (hashE e) g1) = success (hashE e)"
    using ei1 by (simp add: delete_edge_def Let_def)
  have vi2: "contains (vertex_index g2) v"
    using vi1 ei1 assms(4) by (simp add: delete_edge_def Let_def)
  have al2: "adjacency_list g2 v = Some (es0\<lparr>outgoing_edges := outgoing_edges es0 - {hashE e},
      incoming_edges := incoming_edges es0 - {hashE e}\<rparr>)"
    using ei1 al1 assms(4) by (simp add: delete_edge_def Let_def subscript_update_apply)
  have cond: "(case adjacency_list g v of None \<Rightarrow> True
      | Some es \<Rightarrow> incoming_edges es \<subseteq> {hashE e} \<and> outgoing_edges es \<subseteq> {hashE e})
      \<longleftrightarrow> incoming_edges es0 - {hashE e} = {} \<and> outgoing_edges es0 - {hashE e} = {}"
    by (auto simp add: es0_def EdgeSet_default_def split: option.splits)
  have final: "fst (delete_vertex v g2) =
      (if incoming_edges es0 - {hashE e} = {} \<and> outgoing_edges es0 - {hashE e} = {}
       then success v else error VERTEX_NOT_FREE)"
    using vi2 al2 by (simp add: delete_vertex_def)
  show ?thesis
    using added listed later deleted final cond by simp
qed

lemma self_loop_graph_later:
  "adjacency_list (run id_hash id_hash [Add_vertex 7] self_loop_graph) 6
     = Some \<lparr>incoming_edges = {66}, outgoing_edges = {66}\<rparr>"
  "adjacency_list (run id_hash id_hash [Add_edge 6 1 61] self_loop_graph) 6
     = Some \<lparr>incoming_edges = {66}, outgoing_edges = {61, 66}\<rparr>"
  by (simp_all add: self_loop_graph_def graph_eval)

text \<open>
  The amended C9 on the scenario with a freshly added, isolated vertex 6 and the self-loop
  66: with an unrelated \<open>add_vertex(7)\<close> in between, and with nothing in between, deleting the
  loop frees vertex 6; with \<open>add_edge(6,1,61)\<close> in between it does not.
\<close>

theorem self_loop_gates_delete_vertex_witness:
  "fst (add_edge id_hash 6 6 66 (snd (add_vertex id_hash 6 scenario_graph))) = success (id_hash 66) \<and>
   fst (delete_vertex 6 (run id_hash id_hash [Add_vertex 7] self_loop_graph))
     = error VERTEX_NOT_FREE \<and>
   fst (delete_edge (id_hash 66) (run id_hash id_hash [Add_vertex 7] self_loop_graph))
     = success (id_hash 66) \<and>
   fst (delete_vertex 6
          (snd (delete_edge (id_hash 66) (run id_hash id_hash [Add_vertex 7] self_loop_graph))))
     = success 6 \<and>
   fst (delete_vertex 6
          (snd (delete_edge (id_hash 66) (run id_hash id_hash [Add_edge 6 1 61] self_loop_graph))))
     = error VERTEX_NOT_FREE \<and>
   fst (delete_vertex 6 (snd (delete_edge (id_hash 66) self_loop_graph))) = success 6"
proof -
  note inst = self_loop_gates_delete_vertex [where hashE = id_hash and hashV = id_hash
      and e = 66 and v = 6 and g = "snd (add_vertex id_hash 6 scenario_graph)",
      OF isolated_vertex_6(1) isolated_vertex_6(3) self_loop_graph_def refl]
  have h: "id_hash 66 = 66" by (simp add: id_hash_def)
  have other7: "Delete_edge (id_hash 66) \<notin> set [Add_vertex 7 :: (nat, nat) call]"
    by simp
  have other61: "Delete_edge (id_hash 66) \<notin> set [Add_edge 6 1 61 :: (nat, nat) call]"
    by simp
  have free: "(case adjacency_list (snd (add_vertex id_hash 6 scenario_graph)) 6 of
      None \<Rightarrow> True
    | Some es \<Rightarrow> incoming_edges es \<subseteq> {id_hash 66} \<and> outgoing_edges es \<subseteq> {id_hash 66})"
    by (simp add: isolated_vertex_6(2) EdgeSet_default_def)
  from inst have c1:
    "fst (add_edge id_hash 6 6 66 (snd (add_vertex id_hash 6 scenario_graph))) = success (id_hash 66)"
    by blast
  from inst other7 have seven:
    "fst (delete_vertex 6 (run id_hash id_hash [Add_vertex 7] self_loop_graph))
       = error VERTEX_NOT_FREE \<and>
     fst (delete_edge (id_hash 66) (run id_hash id_hash [Add_vertex 7] self_loop_graph))
       = success (id_hash 66) \<and>
     (\<exists>es. adjacency_list (run id_hash id_hash [Add_vertex 7] self_loop_graph) 6 = Some es \<and>
        id_hash 66 \<in> outgoing_edges es \<and>
        fst (delete_vertex 6 (snd (delete_edge (id_hash 66)
            (run id_hash id_hash [Add_vertex 7] self_loop_graph)))) =
          (if incoming_edges es \<subseteq> {id_hash 66} \<and> outgoing_edges es \<subseteq> {id_hash 66}
           then success 6 else error VERTEX_NOT_FREE))"
    by blast
  from seven self_loop_graph_later(1) h have c4:
    "fst (delete_vertex 6
       (snd (delete_edge (id_hash 66) (run id_hash id_hash [Add_vertex 7] self_loop_graph))))
     = success 6"
    by auto
  from inst other61 have sixty_one:
    "\<exists>es. adjacency_list (run id_hash id_hash [Add_edge 6 1 61] self_loop_graph) 6 = Some es \<and>
        id_hash 66 \<in> outgoing_edges es \<and>
        fst (delete_vertex 6 (snd (delete_edge (id_hash 66)
            (run id_hash id_hash [Add_edge 6 1 61] self_loop_graph)))) =
          (if incoming_edges es \<subseteq> {id_hash 66} \<and> outgoing_edges es \<subseteq> {id_hash 66}
           then success 6 else error VERTEX_NOT_FREE)"
    by blast
  from sixty_one self_loop_graph_later(2) h have c5:
    "fst (delete_vertex 6
       (snd (delete_edge (id_hash 66) (run id_hash id_hash [Add_edge 6 1 61] self_loop_graph))))
     = error VERTEX_NOT_FREE"
    by auto
  from inst free have c6:
    "fst (delete_vertex 6 (snd (delete_edge (id_hash 66) self_loop_graph))) = success 6"
    by (simp only: if_True)
  from c1 seven c4 c5 c6 show ?thesis by blast
qed

text \<open>
  C9 as stated says that \<open>delete_vertex(v)\<close> succeeds once the self-loop is deleted. Vertex 3
  of the scenario has the outgoing edge 31: after adding and deleting the self-loop 33,
  \<open>delete_vertex(3)\<close> still returns \<open>VERTEX_NOT_FREE\<close>.
\<close>

theorem self_loop_counterexample:
  "contains (vertex_index scenario_graph) 3 \<and>
   \<not> contains (edge_index scenario_graph) (id_hash 33) \<and>
   fst (add_edge id_hash 3 3 33 scenario_graph) = success (id_hash 33) \<and>
   fst (delete_edge (id_hash 33) (snd (add_edge id_hash 3 3 33 scenario_graph)))
     = success (id_hash 33) \<and>
   fst (delete_vertex 3
          (snd (delete_edge (id_hash 33) (snd (add_edge id_hash 3 3 33 scenario_graph)))))
     = error VERTEX_NOT_FREE"
  by (simp add: graph_eval success_def error_def)

end
